theory Spec2Isabelle
  imports Main "HOL-Library.Word"
begin

unbundle bit_operations_syntax

section \<open>Data model (internal/dns/types.go)\<close>

type_synonym byte = "8 word"
type_synonym uint16 = "16 word"
type_synonym uint32 = "32 word"

definition TYPE_A :: uint16 where "TYPE_A = 1"
definition TYPE_AAAA :: uint16 where "TYPE_AAAA = 28"
definition CLASS_IN :: uint16 where "CLASS_IN = 1"
definition MIN_MESSAGE_SIZE :: nat where "MIN_MESSAGE_SIZE = 12"
definition DEFAULT_TTL :: uint32 where "DEFAULT_TTL = 300"

record DNSHeader =
  ID :: uint16
  Flags :: uint16
  QDCount :: uint16
  ANCount :: uint16
  NSCount :: uint16
  ARCount :: uint16

record DNSQuestion =
  QName :: string
  QType :: uint16
  QClass :: uint16

record DNSResourceRecord =
  Name :: string
  Type :: uint16
  Class :: uint16
  TTL :: uint32
  Data :: "byte list"

record DNSMessage =
  Header :: DNSHeader
  Questions :: "DNSQuestion list"
  Answers :: "DNSResourceRecord list"

text \<open>
  The errors of the parser are \<open>fmt.Errorf\<close> values; one constructor per message:
  \<open>TooShort\<close> is "message too short", \<open>TruncatedQuestion\<close> is "not enough data for
  question type and class", \<open>UnexpectedEnd\<close> is "unexpected end of data",
  \<open>InvalidPointer\<close> is "invalid compression pointer" and \<open>LabelOverrun\<close> is
  "label extends beyond data".
\<close>

datatype error = TooShort | TruncatedQuestion | UnexpectedEnd | InvalidPointer | LabelOverrun

section \<open>Strings and bytes\<close>

text \<open>A Go string is a byte sequence; \<open>string(bs)\<close> and \<open>[]byte(s)\<close> convert bytewise.\<close>

definition byte_of_char :: "char \<Rightarrow> byte" where
  "byte_of_char c = of_nat (of_char c)"

definition char_of_byte :: "byte \<Rightarrow> char" where
  "char_of_byte b = char_of (unat b)"

definition bytes_of_string :: "string \<Rightarrow> byte list" where
  "bytes_of_string s = map byte_of_char s"

definition string_of_bytes :: "byte list \<Rightarrow> string" where
  "string_of_bytes bs = map char_of_byte bs"

text \<open>\<open>strings.Split(s, ".")\<close>: one more piece than there are dots; the empty string gives one empty piece.\<close>

fun split_dot :: "string \<Rightarrow> string list" where
  "split_dot [] = [[]]"
| "split_dot (c # cs) =
     (if c = CHR ''.'' then [] # split_dot cs
      else (c # hd (split_dot cs)) # tl (split_dot cs))"

text \<open>\<open>strings.Join(labels, ".")\<close>.\<close>

fun join_dot :: "string list \<Rightarrow> string" where
  "join_dot [] = []"
| "join_dot [l] = l"
| "join_dot (l # ls) = l @ CHR ''.'' # join_dot ls"

text \<open>
  \<open>strings.ToLower\<close> of the Go standard library. A string of ASCII bytes is lower-cased
  bytewise, \<open>A\<close> to \<open>Z\<close> only. A string with a byte of \<open>0x80\<close> or more goes through the
  Unicode case mapping of the library (\<open>strings.Map(unicode.ToLower, s)\<close>), which is no
  code of this repository: it is the parameter \<open>unicode_lower\<close>.
\<close>

definition is_upper :: "char \<Rightarrow> bool" where
  "is_upper c = (65 \<le> (of_char c :: nat) \<and> (of_char c :: nat) \<le> 90)"

definition lower_char :: "char \<Rightarrow> char" where
  "lower_char c = (if is_upper c then char_of ((of_char c :: nat) + 32) else c)"

definition ToLower :: "(string \<Rightarrow> string) \<Rightarrow> string \<Rightarrow> string" where
  "ToLower unicode_lower s =
     (if list_all (\<lambda>c. (of_char c :: nat) < 128) s then map lower_char s
      else unicode_lower s)"

section \<open>Wire codec: decode (internal/dns/parser.go)\<close>

text \<open>The two returns after the loop of \<open>parseDomainName\<close>.\<close>

definition finish_name :: "string list \<Rightarrow> string" where
  "finish_name labels = (if labels = [] then ''.'' else join_dot labels)"

text \<open>
  \<open>parseDomainName\<close> is a loop over the labels that calls itself at a compression
  pointer. The loop state is the offset and the labels read so far; entering the function
  is the loop with no labels. The function has no bound on the pointers it follows, so
  not returning is the value \<open>None\<close>.
\<close>

partial_function (option) parseDomainName_loop ::
  "byte list \<Rightarrow> nat \<Rightarrow> string list \<Rightarrow> (error + string \<times> nat) option" where
  "parseDomainName_loop data offset labels =
     (if offset \<ge> length data then Some (Inl UnexpectedEnd)
      else if data ! offset = 0 then Some (Inr (finish_name labels, offset + 1))
      else if (data ! offset) AND 0xC0 = 0xC0 then
        (if offset + 1 \<ge> length data then Some (Inl InvalidPointer)
         else
           Option.bind
             (parseDomainName_loop data
                (unat (push_bit 8 (ucast ((data ! offset) AND 0x3F) :: uint16)
                        OR ucast (data ! (offset + 1)))) [])
             (\<lambda>r. case r of
                Inl e \<Rightarrow> Some (Inl e)
              | Inr res \<Rightarrow>
                  Some (Inr (finish_name (labels @ split_dot (fst res)), offset + 2))))
      else if offset + unat (data ! offset) + 1 > length data then Some (Inl LabelOverrun)
      else parseDomainName_loop data (offset + unat (data ! offset) + 1)
             (labels @ [string_of_bytes (take (unat (data ! offset)) (drop (offset + 1) data))]))"

declare parseDomainName_loop.simps [code]

definition parseDomainName :: "byte list \<Rightarrow> nat \<Rightarrow> (error + string \<times> nat) option" where
  "parseDomainName data offset = parseDomainName_loop data offset []"

definition be16 :: "byte \<Rightarrow> byte \<Rightarrow> uint16" where
  "be16 hi lo = push_bit 8 (ucast hi) OR ucast lo"

definition parseQuestions :: "byte list \<Rightarrow> nat \<Rightarrow> (error + DNSQuestion \<times> nat) option" where
  "parseQuestions data offset =
     Option.bind (parseDomainName data offset)
       (\<lambda>r. case r of
          Inl e \<Rightarrow> Some (Inl e)
        | Inr res \<Rightarrow>
            (if snd res + 4 > length data then Some (Inl TruncatedQuestion)
             else Some (Inr (\<lparr>QName = fst res,
                               QType = be16 (data ! snd res) (data ! (snd res + 1)),
                               QClass = be16 (data ! (snd res + 2)) (data ! (snd res + 3))\<rparr>,
                             snd res + 4))))"

text \<open>The loop \<open>for range int(msg.Header.QDCount)\<close> of \<open>ParseDNSMessage\<close>.\<close>

fun parse_question_loop ::
  "byte list \<Rightarrow> nat \<Rightarrow> nat \<Rightarrow> DNSQuestion list \<Rightarrow> (error + DNSQuestion list) option" where
  "parse_question_loop data offset 0 qs = Some (Inr qs)"
| "parse_question_loop data offset (Suc n) qs =
     Option.bind (parseQuestions data offset)
       (\<lambda>r. case r of
          Inl e \<Rightarrow> Some (Inl e)
        | Inr res \<Rightarrow> parse_question_loop data (snd res) n (qs @ [fst res]))"

definition parse_header :: "byte list \<Rightarrow> DNSHeader" where
  "parse_header data =
     \<lparr>ID = be16 (data ! 0) (data ! 1),
      Flags = be16 (data ! 2) (data ! 3),
      QDCount = be16 (data ! 4) (data ! 5),
      ANCount = be16 (data ! 6) (data ! 7),
      NSCount = be16 (data ! 8) (data ! 9),
      ARCount = be16 (data ! 10) (data ! 11)\<rparr>"

definition ParseDNSMessage :: "byte list \<Rightarrow> (error + DNSMessage) option" where
  "ParseDNSMessage data =
     (if length data < MIN_MESSAGE_SIZE then Some (Inl TooShort)
      else
        Option.bind (parse_question_loop data 12 (unat (QDCount (parse_header data))) [])
          (\<lambda>r. case r of
             Inl e \<Rightarrow> Some (Inl e)
           | Inr qs \<Rightarrow> Some (Inr \<lparr>Header = parse_header data, Questions = qs, Answers = []\<rparr>)))"

section \<open>Wire codec: encode (package dns, \<open>EncodeDNSMessage\<close>)\<close>

text \<open>The loop over the labels of \<open>EncodeDomainName\<close>, with the buffer built so far.\<close>

fun encode_labels :: "byte list \<Rightarrow> string list \<Rightarrow> byte list" where
  "encode_labels buffer [] = buffer"
| "encode_labels buffer (label # labels) =
     (if length label > 63 then encode_labels buffer labels
      else encode_labels (buffer @ [of_nat (length label)] @ bytes_of_string label) labels)"

definition EncodeDomainName :: "string \<Rightarrow> byte list" where
  "EncodeDomainName name =
     (if name = [] then [0]
      else encode_labels [] (split_dot name) @ [0])"

definition put16 :: "uint16 \<Rightarrow> byte list" where
  "put16 x = [ucast (drop_bit 8 x), ucast x]"

definition put32 :: "uint32 \<Rightarrow> byte list" where
  "put32 x = [ucast (drop_bit 24 x), ucast (drop_bit 16 x), ucast (drop_bit 8 x), ucast x]"

definition encode_header :: "DNSHeader \<Rightarrow> byte list" where
  "encode_header h =
     put16 (ID h) @ put16 (Flags h) @ put16 (QDCount h) @ put16 (ANCount h)
     @ put16 (NSCount h) @ put16 (ARCount h)"

fun encode_questions :: "byte list \<Rightarrow> DNSQuestion list \<Rightarrow> byte list" where
  "encode_questions buffer [] = buffer"
| "encode_questions buffer (q # qs) =
     encode_questions
       (buffer @ EncodeDomainName (QName q) @ put16 (QType q) @ put16 (QClass q)) qs"

fun encode_answers :: "byte list \<Rightarrow> DNSResourceRecord list \<Rightarrow> byte list" where
  "encode_answers buffer [] = buffer"
| "encode_answers buffer (a # as) =
     encode_answers
       (buffer @ EncodeDomainName (Name a) @ put16 (Type a) @ put16 (Class a) @ put32 (TTL a)
        @ [of_nat (length (Data a) div 256), of_nat (length (Data a))] @ Data a) as"

definition EncodeDNSMessage :: "DNSMessage \<Rightarrow> byte list" where
  "EncodeDNSMessage msg =
     encode_answers (encode_questions (encode_header (Header msg)) (Questions msg)) (Answers msg)"

section \<open>Record table (internal/dns/records.go)\<close>

type_synonym RecordStore = "string \<rightharpoonup> (uint16 \<rightharpoonup> byte list)"

definition NewRecordStore :: RecordStore where
  "NewRecordStore =
     [''www.example.com'' \<mapsto> [TYPE_A \<mapsto> [192, 168, 1, 1]],
      ''example.com'' \<mapsto> [TYPE_A \<mapsto> [192, 168, 1, 1]],
      ''test.com'' \<mapsto> [TYPE_A \<mapsto> [10, 0, 0, 1]],
      ''localhost'' \<mapsto> [TYPE_A \<mapsto> [127, 0, 0, 1]],
      ''google.com'' \<mapsto> [TYPE_A \<mapsto> [8, 8, 8, 8]]]"

text \<open>\<open>LookupRecord\<close> returns the data and a flag; the flag is the \<open>Some\<close>.\<close>

definition LookupRecord :: "RecordStore \<Rightarrow> string \<Rightarrow> uint16 \<Rightarrow> byte list option" where
  "LookupRecord rs domain recordType =
     (case rs domain of
        Some domainRecords \<Rightarrow>
          (case domainRecords recordType of Some data \<Rightarrow> Some data | None \<Rightarrow> None)
      | None \<Rightarrow> None)"

definition AddRecord :: "RecordStore \<Rightarrow> string \<Rightarrow> uint16 \<Rightarrow> byte list \<Rightarrow> RecordStore" where
  "AddRecord rs domain recordType data =
     (case rs domain of
        None \<Rightarrow> rs(domain \<mapsto> [recordType \<mapsto> data])
      | Some domainRecords \<Rightarrow> rs(domain \<mapsto> domainRecords(recordType \<mapsto> data)))"

section \<open>Response builder (internal/dns/server.go)\<close>

text \<open>
  The log call of a found record reads \<open>ipData[0]\<close> to \<open>ipData[3]\<close>: on a stored
  value of fewer than four bytes the index panics and no response is built.
\<close>

datatype panic = IndexOutOfRange

definition base_response :: "DNSMessage \<Rightarrow> DNSMessage" where
  "base_response query =
     \<lparr>Header = \<lparr>ID = ID (Header query), Flags = 0x8180, QDCount = QDCount (Header query),
                 ANCount = 0, NSCount = 0, ARCount = 0\<rparr>,
      Questions = Questions query,
      Answers = []\<rparr>"

definition add_answer :: "DNSMessage \<Rightarrow> DNSQuestion \<Rightarrow> byte list \<Rightarrow> DNSMessage" where
  "add_answer response question ipData =
     response\<lparr>Answers := Answers response @
                 [\<lparr>Name = QName question, Type = TYPE_A, Class = CLASS_IN,
                   TTL = DEFAULT_TTL, Data = ipData\<rparr>],
               Header := (Header response)\<lparr>ANCount := ANCount (Header response) + 1\<rparr>\<rparr>"

text \<open>The loop over \<open>query.Questions\<close>, with the response built so far.\<close>

fun answer_questions ::
  "(string \<Rightarrow> string) \<Rightarrow> RecordStore \<Rightarrow> DNSMessage \<Rightarrow> DNSQuestion list
   \<Rightarrow> panic + DNSMessage" where
  "answer_questions ul rs response [] = Inr response"
| "answer_questions ul rs response (question # questions) =
     (if QType question = TYPE_A \<and> QClass question = CLASS_IN then
        (case LookupRecord rs (ToLower ul (QName question)) TYPE_A of
           Some ipData \<Rightarrow>
             (if length ipData < 4 then Inl IndexOutOfRange
              else answer_questions ul rs (add_answer response question ipData) questions)
         | None \<Rightarrow> answer_questions ul rs response questions)
      else answer_questions ul rs response questions)"

definition set_nxdomain :: "DNSMessage \<Rightarrow> DNSMessage" where
  "set_nxdomain response =
     (if ANCount (Header response) = 0
      then response\<lparr>Header := (Header response)\<lparr>Flags := Flags (Header response) OR 0x0003\<rparr>\<rparr>
      else response)"

definition createDNSResponse ::
  "(string \<Rightarrow> string) \<Rightarrow> RecordStore \<Rightarrow> DNSMessage \<Rightarrow> panic + DNSMessage" where
  "createDNSResponse ul rs query =
     (case answer_questions ul rs (base_response query) (Questions query) of
        Inl p \<Rightarrow> Inl p
      | Inr response \<Rightarrow> Inr (set_nxdomain response))"

section \<open>Auxiliary notions for the properties\<close>

text \<open>The wire form of one label that the encoder keeps.\<close>

definition enc_label :: "string \<Rightarrow> byte list" where
  "enc_label l = of_nat (length l) # bytes_of_string l"

text \<open>
  Name encoding as the specification words it: the labels of at most 63 bytes, each behind
  its length byte, then a zero byte; the empty name is the zero byte alone.
\<close>

definition spec_encode_name :: "string \<Rightarrow> byte list" where
  "spec_encode_name name =
     (if name = [] then [0]
      else concat (map enc_label (filter (\<lambda>l. length l \<le> 63) (split_dot name))) @ [0])"

text \<open>A name all of whose labels have 1 to 63 bytes.\<close>

definition wf_name :: "string \<Rightarrow> bool" where
  "wf_name name = (\<forall>l \<in> set (split_dot name). 0 < length l \<and> length l \<le> 63)"

text \<open>
  A well-formed message: the question count is the number of questions, and every question
  name is well formed.
\<close>

definition wf_message :: "DNSMessage \<Rightarrow> bool" where
  "wf_message m =
     (length (Questions m) < 65536 \<and>
      QDCount (Header m) = of_nat (length (Questions m)) \<and>
      (\<forall>q \<in> set (Questions m). wf_name (QName q)))"

definition enc_question :: "DNSQuestion \<Rightarrow> byte list" where
  "enc_question q = EncodeDomainName (QName q) @ put16 (QType q) @ put16 (QClass q)"

text \<open>
  The offset that \<open>parseDomainName\<close> goes on to from an offset: the target of a
  compression pointer or the length byte of the next label; \<open>None\<close> where it returns.
\<close>

definition next_offset :: "byte list \<Rightarrow> nat \<Rightarrow> nat option" where
  "next_offset data offset =
     (if offset \<ge> length data then None
      else if data ! offset = 0 then None
      else if (data ! offset) AND 0xC0 = 0xC0 then
        (if offset + 1 \<ge> length data then None
         else Some (unat (push_bit 8 (ucast ((data ! offset) AND 0x3F) :: uint16)
                          OR ucast (data ! (offset + 1)))))
      else if offset + unat (data ! offset) + 1 > length data then None
      else Some (offset + unat (data ! offset) + 1))"

text \<open>
  The offset that the name decoder is at after \<open>j\<close> steps from an offset, a step being a
  label read or a pointer followed.
\<close>

fun offset_after :: "byte list \<Rightarrow> nat \<Rightarrow> nat \<Rightarrow> nat option" where
  "offset_after data offset 0 = Some offset"
| "offset_after data offset (Suc j) =
     (case next_offset data offset of None \<Rightarrow> None | Some t \<Rightarrow> offset_after data t j)"

text \<open>The offset behind the first \<open>k\<close> questions from an offset, when each of them parses.\<close>

fun skip_questions :: "byte list \<Rightarrow> nat \<Rightarrow> nat \<Rightarrow> nat option" where
  "skip_questions data offset 0 = Some offset"
| "skip_questions data offset (Suc k) =
     (case parseQuestions data offset of
        Some (Inr res) \<Rightarrow> skip_questions data (snd res) k
      | _ \<Rightarrow> None)"

text \<open>The chain of offsets from an offset ends within \<open>n\<close> steps.\<close>

fun chain_ends :: "byte list \<Rightarrow> nat \<Rightarrow> nat \<Rightarrow> bool" where
  "chain_ends data offset 0 = (next_offset data offset = None)"
| "chain_ends data offset (Suc n) =
     (case next_offset data offset of None \<Rightarrow> True | Some t \<Rightarrow> chain_ends data t n)"

text \<open>
  The labels that the encoder keeps of a name, up to its first empty label.
\<close>

definition labels_before_empty :: "string \<Rightarrow> string list" where
  "labels_before_empty name =
     takeWhile (\<lambda>l. l \<noteq> []) (filter (\<lambda>l. length l \<le> 63) (split_dot name))"

text \<open>A question that the response builder resolves: address type, Internet class.\<close>

definition supported :: "DNSQuestion \<Rightarrow> bool" where
  "supported q = (QType q = TYPE_A \<and> QClass q = CLASS_IN)"

text \<open>Every stored address has the four bytes that the log call reads.\<close>

definition addresses_complete :: "RecordStore \<Rightarrow> bool" where
  "addresses_complete rs =
     (\<forall>domain data. LookupRecord rs domain TYPE_A = Some data \<longrightarrow> 4 \<le> length data)"

section \<open>Strings, bytes and 16-bit fields\<close>

lemma unat_byte_of_char: "unat (byte_of_char c) = of_char c"
  unfolding byte_of_char_def by (simp add: unat_of_nat)

lemma char_of_byte_of_char [simp]: "char_of_byte (byte_of_char c) = c"
  by (simp add: char_of_byte_def unat_byte_of_char)

lemma string_of_bytes_of_string [simp]: "string_of_bytes (bytes_of_string s) = s"
  by (simp add: string_of_bytes_def bytes_of_string_def comp_def)

lemma length_bytes_of_string [simp]: "length (bytes_of_string s) = length s"
  by (simp add: bytes_of_string_def)

lemma be16_put16: "be16 (ucast (drop_bit 8 x)) (ucast x) = (x :: uint16)"
  unfolding be16_def by (rule bit_word_eqI) (auto simp add: bit_simps)

lemma split_dot_nonempty [simp]: "split_dot s \<noteq> []"
  by (induction s) auto

lemma join_dot_Cons: "ls \<noteq> [] \<Longrightarrow> join_dot (l # ls) = l @ CHR ''.'' # join_dot ls"
  by (cases ls) auto

lemma join_dot_hd_Cons: "ls \<noteq> [] \<Longrightarrow> join_dot ((c # hd ls) # tl ls) = c # join_dot ls"
  by (cases ls; cases "tl ls") auto

lemma join_split_dot [simp]: "join_dot (split_dot s) = s"
  by (induction s) (auto simp: join_dot_Cons join_dot_hd_Cons)

lemma split_dot_no_dot: "CHR ''.'' \<notin> set a \<Longrightarrow> split_dot a = [a]"
  by (induction a) auto

lemma split_dot_append_dot:
  "CHR ''.'' \<notin> set a \<Longrightarrow> split_dot (a @ CHR ''.'' # b) = a # split_dot b"
  by (induction a) auto

text \<open>The length byte of a label of 1 to 63 bytes is neither the terminator nor a pointer.\<close>

lemma label_len_byte:
  assumes "0 < n" "n \<le> 63"
  shows "unat (of_nat n :: byte) = n"
    and "(of_nat n :: byte) \<noteq> 0"
    and "(of_nat n :: byte) AND 0xC0 \<noteq> 0xC0"
proof -
  show u: "unat (of_nat n :: byte) = n"
    using assms by (simp add: unat_of_nat)
  show "(of_nat n :: byte) \<noteq> 0"
    using u assms by (metis unat_0 less_numeral_extra(3))
  show "(of_nat n :: byte) AND 0xC0 \<noteq> 0xC0"
  proof
    assume "(of_nat n :: byte) AND 0xC0 = 0xC0"
    then have "(0xC0 :: byte) \<le> of_nat n"
      by (metis word_and_le2)
    then have "unat (0xC0 :: byte) \<le> unat (of_nat n :: byte)"
      by (simp add: word_le_nat_alt)
    with u assms show False by simp
  qed
qed

section \<open>Encoding names\<close>

lemma encode_labels_eq:
  "encode_labels buffer ls = buffer @ concat (map enc_label (filter (\<lambda>l. length l \<le> 63) ls))"
  by (induction ls arbitrary: buffer) (auto simp: enc_label_def)

lemma EncodeDomainName_eq_spec: "EncodeDomainName name = spec_encode_name name"
  by (simp add: EncodeDomainName_def spec_encode_name_def encode_labels_eq)

lemma wf_name_nonempty: "wf_name name \<Longrightarrow> name \<noteq> []"
  by (auto simp: wf_name_def)

lemma EncodeDomainName_wf:
  "wf_name name \<Longrightarrow> EncodeDomainName name = concat (map enc_label (split_dot name)) @ [0]"
  using wf_name_nonempty[of name]
  by (simp add: EncodeDomainName_def encode_labels_eq wf_name_def)

text \<open>
  C7. \<open>EncodeDomainName\<close> is the encoding of the specification: the name is split on the
  dot; every label of at most 63 bytes is emitted as its length byte and its bytes, in
  order; a longer label is left out whole; a zero byte ends the result; the empty name
  gives the single zero byte.
\<close>

theorem EncodeDomainName_lossy_only_for_long_labels:
  "EncodeDomainName name = spec_encode_name name
   \<and> last (EncodeDomainName name) = 0
   \<and> EncodeDomainName [] = [0]"
  by (simp add: EncodeDomainName_def spec_encode_name_def encode_labels_eq)

text \<open>A label of 64 bytes between two short ones leaves no byte in the encoding.\<close>

theorem EncodeDomainName_lossy_only_for_long_labels_witness:
  "EncodeDomainName (''a'' @ CHR ''.'' # replicate 64 (CHR ''x'') @ CHR ''.'' # ''b'')
   = [1, 97, 1, 98, 0]"
proof -
  let ?x = "replicate 64 (CHR ''x'')"
  have s: "split_dot (''a'' @ CHR ''.'' # ?x @ CHR ''.'' # ''b'') = [''a'', ?x, ''b'']"
  proof -
    have 1: "split_dot ''b'' = [''b'']"
      by simp
    have 2: "split_dot (?x @ CHR ''.'' # ''b'') = ?x # split_dot ''b''"
      by (rule split_dot_append_dot) simp
    have 3: "split_dot (''a'' @ CHR ''.'' # ?x @ CHR ''.'' # ''b'')
             = ''a'' # split_dot (?x @ CHR ''.'' # ''b'')"
      by (rule split_dot_append_dot) simp
    show ?thesis
      by (simp only: 1 2 3)
  qed
  have a: "enc_label ''a'' = [1, 97]" "enc_label ''b'' = [1, 98]"
    by code_simp+
  have "spec_encode_name (''a'' @ CHR ''.'' # ?x @ CHR ''.'' # ''b'') = [1, 97, 1, 98, 0]"
    unfolding spec_encode_name_def s by (simp add: a)
  then show ?thesis
    using EncodeDomainName_lossy_only_for_long_labels
      [of "''a'' @ CHR ''.'' # ?x @ CHR ''.'' # ''b''"]
    by (simp only:)
qed

section \<open>Decoding what the encoder wrote\<close>

lemma parse_literal_labels:
  assumes "\<forall>l \<in> set ls. 0 < length l \<and> length l \<le> 63"
  shows "parseDomainName_loop (pre @ concat (map enc_label ls) @ 0 # rest) (length pre) acc
         = Some (Inr (finish_name (acc @ ls), length pre + length (concat (map enc_label ls)) + 1))"
  using assms
proof (induction ls arbitrary: pre acc)
  case Nil
  show ?case by (subst parseDomainName_loop.simps) simp
next
  case (Cons l ls)
  let ?data = "pre @ concat (map enc_label (l # ls)) @ 0 # rest"
  have l: "0 < length l" "length l \<le> 63"
    using Cons.prems by auto
  have at: "?data ! length pre = of_nat (length l)"
    by (simp add: enc_label_def)
  have len: "length pre + length l + 1 \<le> length ?data"
    by (simp add: enc_label_def)
  have tk: "take (length l) (drop (length pre + 1) ?data) = bytes_of_string l"
    by (simp add: enc_label_def)
  have data': "?data = (pre @ enc_label l) @ concat (map enc_label ls) @ 0 # rest"
    by simp
  have IH: "parseDomainName_loop ?data (length (pre @ enc_label l)) (acc @ [l])
      = Some (Inr (finish_name ((acc @ [l]) @ ls),
           length (pre @ enc_label l) + length (concat (map enc_label ls)) + 1))"
    unfolding data' using Cons.prems by (intro Cons.IH) simp
  have lp: "length (pre @ enc_label l) = length pre + length l + 1"
    by (simp add: enc_label_def)
  show ?case
    apply (subst parseDomainName_loop.simps)
    apply (simp only: at label_len_byte[OF l] tk)
    using len IH lp
    apply (simp add: enc_label_def)
    done
qed

lemma parseDomainName_encoded:
  assumes "wf_name name"
  shows "parseDomainName (pre @ EncodeDomainName name @ rest) (length pre)
         = Some (Inr (name, length pre + length (EncodeDomainName name)))"
  using parse_literal_labels[of "split_dot name" pre rest "[]"] assms
  by (simp add: parseDomainName_def EncodeDomainName_wf finish_name_def wf_name_def)

lemma parseQuestions_encoded:
  assumes "wf_name (QName q)"
  shows "parseQuestions (pre @ enc_question q @ rest) (length pre)
         = Some (Inr (q, length pre + length (enc_question q)))"
proof -
  let ?n = "EncodeDomainName (QName q)"
  let ?tail = "put16 (QType q) @ put16 (QClass q) @ rest"
  have d: "pre @ enc_question q @ rest = pre @ ?n @ ?tail"
    by (simp add: enc_question_def)
  show ?thesis
    unfolding d parseQuestions_def parseDomainName_encoded[OF assms]
    by (simp add: nth_append put16_def be16_put16 enc_question_def)
qed

lemma encode_questions_eq:
  "encode_questions buffer qs = buffer @ concat (map enc_question qs)"
  by (induction qs arbitrary: buffer) (auto simp: enc_question_def)

lemma parse_question_loop_encoded:
  assumes "\<forall>q \<in> set qs. wf_name (QName q)"
  shows "parse_question_loop (pre @ concat (map enc_question qs) @ rest) (length pre)
           (length qs) acc
         = Some (Inr (acc @ qs))"
  using assms
proof (induction qs arbitrary: pre acc)
  case Nil
  show ?case by simp
next
  case (Cons q qs)
  have wq: "wf_name (QName q)"
    using Cons.prems by simp
  have pq: "parseQuestions (pre @ enc_question q @ concat (map enc_question qs) @ rest)
              (length pre)
            = Some (Inr (q, length pre + length (enc_question q)))"
    by (rule parseQuestions_encoded[OF wq])
  have IH: "parse_question_loop ((pre @ enc_question q) @ concat (map enc_question qs) @ rest)
              (length (pre @ enc_question q)) (length qs) (acc @ [q])
            = Some (Inr ((acc @ [q]) @ qs))"
    using Cons.prems by (intro Cons.IH) simp
  show ?case using IH by (simp add: pq)
qed

lemma length_encode_header [simp]: "length (encode_header h) = 12"
  by (simp add: encode_header_def put16_def)

lemma parse_header_encode_header [simp]: "parse_header (encode_header h @ rest) = h"
  by (simp add: parse_header_def encode_header_def put16_def be16_put16)

lemma encode_answers_prefix: "\<exists>rest. encode_answers buffer as = buffer @ rest"
  by (induction as arbitrary: buffer) (auto, metis append.assoc)

lemma parse_encoded_message:
  assumes "wf_message m"
  shows "ParseDNSMessage (EncodeDNSMessage m) = Some (Inr (m\<lparr>Answers := []\<rparr>))"
proof -
  obtain rest where e: "EncodeDNSMessage m
      = encode_header (Header m) @ concat (map enc_question (Questions m)) @ rest"
    using encode_answers_prefix
      [of "encode_questions (encode_header (Header m)) (Questions m)" "Answers m"]
    by (auto simp: EncodeDNSMessage_def encode_questions_eq)
  have n: "unat (QDCount (Header m)) = length (Questions m)"
    using assms by (simp add: wf_message_def unat_of_nat)
  have w: "\<forall>q \<in> set (Questions m). wf_name (QName q)"
    using assms by (simp add: wf_message_def)
  have "parse_question_loop (EncodeDNSMessage m) 12 (length (Questions m)) []
        = Some (Inr (Questions m))"
    using parse_question_loop_encoded[OF w, of "encode_header (Header m)" rest "[]"]
    by (simp add: e)
  then show ?thesis
    by (simp add: ParseDNSMessage_def MIN_MESSAGE_SIZE_def n e)
qed

text \<open>
  What a round trip keeps. For every well-formed message (the question count is the number
  of questions, every label of every question name has 1 to 63 bytes), decoding the
  encoding returns the six header fields and the question list of the message, and an
  empty answer list.
\<close>

theorem roundtrip_header_and_questions:
  assumes "wf_message m"
  shows "ParseDNSMessage (EncodeDNSMessage m) = Some (Inr (m\<lparr>Answers := []\<rparr>))"
  using assms by (rule parse_encoded_message)

theorem roundtrip_header_and_questions_witness:
  "wf_message
     \<lparr>Header = \<lparr>ID = 0xABCD, Flags = 0x0100, QDCount = 1, ANCount = 0, NSCount = 0,
                 ARCount = 0\<rparr>,
      Questions = [\<lparr>QName = ''example.com'', QType = 1, QClass = 1\<rparr>],
      Answers = []\<rparr>
   \<and> ParseDNSMessage (EncodeDNSMessage
        \<lparr>Header = \<lparr>ID = 0xABCD, Flags = 0x0100, QDCount = 1, ANCount = 0, NSCount = 0,
                    ARCount = 0\<rparr>,
         Questions = [\<lparr>QName = ''example.com'', QType = 1, QClass = 1\<rparr>],
         Answers = []\<rparr>)
     = Some (Inr
        \<lparr>Header = \<lparr>ID = 0xABCD, Flags = 0x0100, QDCount = 1, ANCount = 0, NSCount = 0,
                    ARCount = 0\<rparr>,
         Questions = [\<lparr>QName = ''example.com'', QType = 1, QClass = 1\<rparr>],
         Answers = []\<rparr>)"
proof -
  have w: "wf_message
     \<lparr>Header = \<lparr>ID = 0xABCD, Flags = 0x0100, QDCount = 1, ANCount = 0, NSCount = 0,
                 ARCount = 0\<rparr>,
      Questions = [\<lparr>QName = ''example.com'', QType = 1, QClass = 1\<rparr>],
      Answers = []\<rparr>"
    by (simp add: wf_message_def wf_name_def)
  show ?thesis
    using w roundtrip_header_and_questions[OF w] by simp
qed

lemma ParseDNSMessage_no_answers:
  assumes "ParseDNSMessage data = Some (Inr m)"
  shows "Answers m = []"
proof -
  let ?n = "unat (QDCount (parse_header data))"
  from assms have l: "\<not> length data < MIN_MESSAGE_SIZE"
    by (auto simp: ParseDNSMessage_def split: if_splits)
  with assms obtain y where y: "parse_question_loop data 12 ?n [] = Some y"
    by (cases "parse_question_loop data 12 ?n []") (auto simp: ParseDNSMessage_def)
  show ?thesis
  proof (cases y)
    case (Inl e)
    with y assms l show ?thesis by (simp add: ParseDNSMessage_def)
  next
    case (Inr qs)
    with y assms l have "m = \<lparr>Header = parse_header data, Questions = qs, Answers = []\<rparr>"
      by (simp add: ParseDNSMessage_def)
    then show ?thesis by simp
  qed
qed

text \<open>
  C2, on the code. The decoder assigns no answer: the response to the query of scenario A
  (one question, one answer, answer count 1), encoded and decoded, comes back with answer
  count 1 and an empty answer list, so the round trip loses the answers. The tests of the
  repository decode this response and expect one answer in it.
\<close>

theorem decoded_response_has_no_answers:
  "map_option (map_sum id (\<lambda>m. (ANCount (Header m), Questions m, Answers m)))
     (ParseDNSMessage (EncodeDNSMessage
        \<lparr>Header = \<lparr>ID = 0x1234, Flags = 0x8180, QDCount = 1, ANCount = 1, NSCount = 0,
                    ARCount = 0\<rparr>,
         Questions = [\<lparr>QName = ''www.example.com'', QType = 1, QClass = 1\<rparr>],
         Answers = [\<lparr>Name = ''www.example.com'', Type = 1, Class = 1, TTL = 300,
                     Data = [192, 168, 1, 1]\<rparr>]\<rparr>))
   = Some (Inr (1, [\<lparr>QName = ''www.example.com'', QType = 1, QClass = 1\<rparr>], []))"
  by code_simp

section \<open>Compression pointers\<close>

text \<open>
  A buffer without a pointer byte is decoded to the end from every offset: each round of
  the loop moves the offset forward.
\<close>

lemma parseDomainName_loop_literal_returns:
  assumes "\<forall>b \<in> set data. b AND 0xC0 \<noteq> 0xC0"
  shows "\<exists>r. parseDomainName_loop data offset labels = Some r"
proof (induction "length data - offset" arbitrary: offset labels rule: less_induct)
  case less
  show ?case
  proof (cases "offset < length data \<and> data ! offset \<noteq> 0
                \<and> \<not> length data < offset + unat (data ! offset) + 1")
    case True
    then have np: "(data ! offset) AND 0xC0 \<noteq> 0xC0"
      using assms by simp
    have "length data - (offset + unat (data ! offset) + 1) < length data - offset"
      using True by arith
    from less[OF this] obtain r where
      "parseDomainName_loop data (offset + unat (data ! offset) + 1)
         (labels @ [string_of_bytes (take (unat (data ! offset)) (drop (offset + 1) data))])
       = Some r"
      by blast
    then show ?thesis
      using True np by (subst parseDomainName_loop.simps) simp
  next
    case False
    then show ?thesis
      using assms by (subst parseDomainName_loop.simps) auto
  qed
qed

text \<open>
  A set of offsets that the decoder never leaves: from each of them it goes on to another
  one. The decoder returns from none of them.
\<close>

lemma cycle_never_returns:
  assumes closed: "\<forall>off \<in> S. \<exists>t \<in> S. next_offset data off = Some t"
    and ret: "parseDomainName_loop data offset labels = Some r"
  shows "offset \<notin> S"
proof -
  have "(\<forall>off \<in> S. \<exists>t \<in> S. next_offset data off = Some t) \<longrightarrow> offset \<notin> S"
  proof (rule parseDomainName_loop.raw_induct
      [where P = "\<lambda>d off ls r. (\<forall>off \<in> S. \<exists>t \<in> S. next_offset d off = Some t) \<longrightarrow> off \<notin> S",
        OF _ ret])
    fix f :: "byte list \<Rightarrow> nat \<Rightarrow> string list \<Rightarrow> (error + string \<times> nat) option"
    fix d off ls y
    assume IH: "\<And>d off ls y. f d off ls = Some y \<Longrightarrow>
                   (\<forall>off \<in> S. \<exists>t \<in> S. next_offset d off = Some t) \<longrightarrow> off \<notin> S"
    assume body: "(if off \<ge> length d then Some (Inl UnexpectedEnd)
      else if d ! off = 0 then Some (Inr (finish_name ls, off + 1))
      else if (d ! off) AND 0xC0 = 0xC0 then
        (if off + 1 \<ge> length d then Some (Inl InvalidPointer)
         else
           Option.bind
             (f d
                (unat (push_bit 8 (ucast ((d ! off) AND 0x3F) :: uint16)
                        OR ucast (d ! (off + 1)))) [])
             (\<lambda>r. case r of
                Inl e \<Rightarrow> Some (Inl e)
              | Inr res \<Rightarrow>
                  Some (Inr (finish_name (ls @ split_dot (fst res)), off + 2))))
      else if off + unat (d ! off) + 1 > length d then Some (Inl LabelOverrun)
      else f d (off + unat (d ! off) + 1)
             (ls @ [string_of_bytes (take (unat (d ! off)) (drop (off + 1) d))])) = Some y"
    show "(\<forall>off \<in> S. \<exists>t \<in> S. next_offset d off = Some t) \<longrightarrow> off \<notin> S"
    proof (intro impI notI)
      assume cl: "\<forall>off \<in> S. \<exists>t \<in> S. next_offset d off = Some t" and mem: "off \<in> S"
      then obtain t where t: "t \<in> S" "next_offset d off = Some t"
        by blast
      from t(2) body obtain ls' y' where "f d t ls' = Some y'"
        by (auto simp: next_offset_def Option.bind_eq_Some_conv split: if_splits)
      from IH[OF this] cl t(1) show False
        by blast
    qed
  qed
  with closed show ?thesis by blast
qed

text \<open>
  The decoder returns, with a name or an error, exactly when the chain of offsets ends.
\<close>

lemma chain_ends_returns:
  "chain_ends data offset n \<Longrightarrow> \<exists>r. parseDomainName_loop data offset labels = Some r"
proof (induction n arbitrary: offset labels)
  case 0
  then show ?case
    by (subst parseDomainName_loop.simps) (auto simp: next_offset_def split: if_splits)
next
  case (Suc n)
  show ?case
  proof (cases "next_offset data offset")
    case None
    then show ?thesis
      by (subst parseDomainName_loop.simps) (auto simp: next_offset_def split: if_splits)
  next
    case (Some t)
    with Suc.prems have "chain_ends data t n" by simp
    from Suc.IH[OF this] have r: "\<And>labels. \<exists>r. parseDomainName_loop data t labels = Some r"
      by blast
    show ?thesis
    proof (cases "(data ! offset) AND 0xC0 = 0xC0")
      case True
      with Some have t: "t = unat (push_bit 8 (ucast ((data ! offset) AND 0x3F) :: uint16)
                          OR ucast (data ! (offset + 1)))"
        and b: "offset < length data" "data ! offset \<noteq> 0" "offset + 1 < length data"
        by (auto simp: next_offset_def split: if_splits)
      from r[of "[]"] obtain y where y: "parseDomainName_loop data t [] = Some y" by blast
      show ?thesis
        using True b y[unfolded t]
        by (subst parseDomainName_loop.simps) (cases y; simp)
    next
      case False
      with Some have t: "t = offset + unat (data ! offset) + 1"
        and b: "offset < length data" "data ! offset \<noteq> 0"
          "\<not> length data < offset + unat (data ! offset) + 1"
        by (auto simp: next_offset_def split: if_splits)
      from r obtain y where
        "parseDomainName_loop data t
           (labels @ [string_of_bytes (take (unat (data ! offset)) (drop (offset + 1) data))]) = Some y"
        by blast
      then show ?thesis
        using False b unfolding t
        by (subst parseDomainName_loop.simps) simp
    qed
  qed
qed

lemma returns_chain_ends:
  assumes ret: "parseDomainName_loop data offset labels = Some r"
  shows "\<exists>n. chain_ends data offset n"
proof (rule parseDomainName_loop.raw_induct
      [where P = "\<lambda>d off ls r. \<exists>n. chain_ends d off n", OF _ ret])
  fix f :: "byte list \<Rightarrow> nat \<Rightarrow> string list \<Rightarrow> (error + string \<times> nat) option"
  fix d off ls y
  assume IH: "\<And>d off ls y. f d off ls = Some y \<Longrightarrow> \<exists>n. chain_ends d off n"
  assume body: "(if off \<ge> length d then Some (Inl UnexpectedEnd)
      else if d ! off = 0 then Some (Inr (finish_name ls, off + 1))
      else if (d ! off) AND 0xC0 = 0xC0 then
        (if off + 1 \<ge> length d then Some (Inl InvalidPointer)
         else
           Option.bind
             (f d
                (unat (push_bit 8 (ucast ((d ! off) AND 0x3F) :: uint16)
                        OR ucast (d ! (off + 1)))) [])
             (\<lambda>r. case r of
                Inl e \<Rightarrow> Some (Inl e)
              | Inr res \<Rightarrow>
                  Some (Inr (finish_name (ls @ split_dot (fst res)), off + 2))))
      else if off + unat (d ! off) + 1 > length d then Some (Inl LabelOverrun)
      else f d (off + unat (d ! off) + 1)
             (ls @ [string_of_bytes (take (unat (d ! off)) (drop (off + 1) d))])) = Some y"
  show "\<exists>n. chain_ends d off n"
  proof (cases "next_offset d off")
    case None
    then have "chain_ends d off 0" by simp
    then show ?thesis ..
  next
    case (Some t)
    with body obtain ls' y' where "f d t ls' = Some y'"
      by (auto simp: next_offset_def Option.bind_eq_Some_conv split: if_splits)
    from IH[OF this] obtain n where "chain_ends d t n" ..
    with Some have "chain_ends d off (Suc n)" by simp
    then show ?thesis ..
  qed
qed

lemma parseDomainName_loop_returns_iff:
  "(\<exists>r. parseDomainName_loop data offset labels = Some r)
   \<longleftrightarrow> (\<exists>n. chain_ends data offset n)"
  using chain_ends_returns returns_chain_ends by blast

lemma self_pointer_never_returns: "parseDomainName [0xC0, 0x00] 0 = None"
proof (cases "parseDomainName [0xC0, 0x00] 0")
  case (Some r)
  have n: "next_offset [0xC0, 0x00] 0 = Some 0"
    by code_simp
  from Some have "(0::nat) \<notin> {0}"
    unfolding parseDomainName_def
    by (rule cycle_never_returns[rotated]) (simp add: n)
  then show ?thesis by simp
qed simp

lemma pointer_chain_never_returns: "parseDomainName [1, 97, 0xC0, 0x00] 2 = None"
proof (cases "parseDomainName [1, 97, 0xC0, 0x00] 2")
  case (Some r)
  have n: "next_offset [1, 97, 0xC0, 0x00] 2 = Some 0"
    "next_offset [1, 97, 0xC0, 0x00] 0 = Some 2"
    by code_simp+
  from Some have "(2::nat) \<notin> {0, 2}"
    unfolding parseDomainName_def
    by (rule cycle_never_returns[rotated]) (simp add: n)
  then show ?thesis by simp
qed simp

lemma self_pointer_question_never_returns:
  "parseDomainName [0x12, 0x34, 0x01, 0x00, 0x00, 0x01, 0, 0, 0, 0, 0, 0, 0xC0, 0x0C] 12 = None"
proof (cases
    "parseDomainName [0x12, 0x34, 0x01, 0x00, 0x00, 0x01, 0, 0, 0, 0, 0, 0, 0xC0, 0x0C] 12")
  case (Some r)
  have n: "next_offset [0x12, 0x34, 0x01, 0x00, 0x00, 0x01, 0, 0, 0, 0, 0, 0, 0xC0, 0x0C] 12
           = Some 12"
    by code_simp
  from Some have "(12::nat) \<notin> {12}"
    unfolding parseDomainName_def
    by (rule cycle_never_returns[rotated]) (simp add: n)
  then show ?thesis by simp
qed simp

text \<open>
  C1, on the code. The decoder has no guard against pointer cycles. On the two bytes of a
  pointer to its own offset, on a pointer whose target leads back to the pointer after one
  label, and on a 14-byte datagram whose only question is a pointer to itself (offset 12),
  the decoder does not return: neither a name nor an error comes back.
\<close>

theorem parseDomainName_pointer_cycle_never_returns:
  "parseDomainName [0xC0, 0x00] 0 = None
   \<and> parseDomainName [1, 97, 0xC0, 0x00] 2 = None
   \<and> ParseDNSMessage [0x12, 0x34, 0x01, 0x00, 0x00, 0x01, 0, 0, 0, 0, 0, 0, 0xC0, 0x0C] = None"
proof -
  have q: "unat (QDCount (parse_header
             [0x12, 0x34, 0x01, 0x00, 0x00, 0x01, 0, 0, 0, 0, 0, 0, 0xC0, 0x0C])) = Suc 0"
    by (simp add: parse_header_def be16_def)
  have "ParseDNSMessage [0x12, 0x34, 0x01, 0x00, 0x00, 0x01, 0, 0, 0, 0, 0, 0, 0xC0, 0x0C]
        = None"
    by (simp add: ParseDNSMessage_def MIN_MESSAGE_SIZE_def q parseQuestions_def
        self_pointer_question_never_returns)
  then show ?thesis
    by (simp add: self_pointer_never_returns pointer_chain_never_returns)
qed

section \<open>Truncated input\<close>

lemma parseQuestions_truncated:
  "parseDomainName data offset = Some (Inr (name, n)) \<Longrightarrow> length data < n + 4 \<Longrightarrow>
   parseQuestions data offset = Some (Inl TruncatedQuestion)"
  by (simp add: parseQuestions_def)

lemma parseQuestions_name_error:
  "parseDomainName data offset = Some (Inl e) \<Longrightarrow> parseQuestions data offset = Some (Inl e)"
  by (simp add: parseQuestions_def)

text \<open>The error of a question behind \<open>k\<close> questions that parse is the result of the loop.\<close>

lemma parse_question_loop_error:
  assumes "skip_questions data offset k = Some offset'"
    and "parseQuestions data offset' = Some (Inl e)"
  shows "parse_question_loop data offset (k + Suc m) acc = Some (Inl e)"
  using assms
proof (induction k arbitrary: offset acc)
  case 0
  then show ?case by simp
next
  case (Suc k)
  from Suc.prems(1) obtain res where
    res: "parseQuestions data offset = Some (Inr res)"
    and sk: "skip_questions data (snd res) k = Some offset'"
    by (auto split: option.splits sum.splits)
  from Suc.IH[OF sk Suc.prems(2), of "acc @ [fst res]"] show ?case
    by (simp add: res)
qed

lemma ParseDNSMessage_question_error:
  assumes "12 \<le> length data" and "k < unat (QDCount (parse_header data))"
    and "skip_questions data 12 k = Some offset"
    and "parseQuestions data offset = Some (Inl e)"
  shows "ParseDNSMessage data = Some (Inl e)"
proof -
  from assms(2) obtain m where m: "unat (QDCount (parse_header data)) = k + Suc m"
    by (metis less_iff_Suc_add add_Suc_right)
  show ?thesis
    using assms(1) parse_question_loop_error[OF assms(3,4), of m "[]"]
    by (simp add: ParseDNSMessage_def MIN_MESSAGE_SIZE_def m)
qed

text \<open>An error at an offset that the name decoder comes to is the result of the decoder.\<close>

lemma parseDomainName_loop_error_after:
  assumes "offset_after data offset j = Some at"
    and "\<forall>ls. parseDomainName_loop data at ls = Some (Inl e)"
  shows "parseDomainName_loop data offset labels = Some (Inl e)"
  using assms(1)
proof (induction j arbitrary: offset labels)
  case 0
  then show ?case using assms(2) by simp
next
  case (Suc j)
  from Suc.prems obtain t where t: "next_offset data offset = Some t"
    and a: "offset_after data t j = Some at"
    by (auto split: option.splits)
  have r: "\<And>ls. parseDomainName_loop data t ls = Some (Inl e)"
    using Suc.IH[OF a] .
  show ?case
  proof (cases "(data ! offset) AND 0xC0 = 0xC0")
    case True
    with t have tt: "t = unat (push_bit 8 (ucast ((data ! offset) AND 0x3F) :: uint16)
                          OR ucast (data ! (offset + 1)))"
      and b: "offset < length data" "data ! offset \<noteq> 0" "offset + 1 < length data"
      by (auto simp: next_offset_def split: if_splits)
    show ?thesis
      using True b r[of "[]", unfolded tt]
      by (subst parseDomainName_loop.simps) simp
  next
    case False
    with t have tt: "t = offset + unat (data ! offset) + 1"
      and b: "offset < length data" "data ! offset \<noteq> 0"
        "\<not> length data < offset + unat (data ! offset) + 1"
      by (auto simp: next_offset_def split: if_splits)
    show ?thesis
      using False b
        r[of "labels @ [string_of_bytes (take (unat (data ! offset)) (drop (offset + 1) data))]",
          unfolded tt]
      by (subst parseDomainName_loop.simps) simp
  qed
qed

lemma parseDomainName_loop_overrun:
  "offset < length data \<Longrightarrow> data ! offset \<noteq> 0 \<Longrightarrow> (data ! offset) AND 0xC0 \<noteq> 0xC0 \<Longrightarrow>
   length data < offset + unat (data ! offset) + 1 \<Longrightarrow>
   parseDomainName_loop data offset labels = Some (Inl LabelOverrun)"
  by (subst parseDomainName_loop.simps) simp

text \<open>
  C6. Decoding a buffer of fewer than 12 bytes fails with \<open>TooShort\<close>. For every question
  of the message, the first or a later one behind questions that parse: when its name
  parses and fewer than 4 bytes follow the name, decoding fails with
  \<open>TruncatedQuestion\<close>; when the decoding of its name comes, after any number of labels
  and pointers, to a label whose length byte announces more bytes than the buffer holds,
  decoding fails with \<open>LabelOverrun\<close>. The same holds of \<open>parseQuestions\<close> and of the name
  decoder on their own.
\<close>

theorem truncation_errors:
  "(length data < 12 \<longrightarrow> ParseDNSMessage data = Some (Inl TooShort))
   \<and> (12 \<le> length data \<and> k < unat (QDCount (parse_header data))
        \<and> skip_questions data 12 k = Some offset
        \<and> parseDomainName data offset = Some (Inr (name, n)) \<and> length data < n + 4
        \<longrightarrow> ParseDNSMessage data = Some (Inl TruncatedQuestion))
   \<and> (12 \<le> length data \<and> k < unat (QDCount (parse_header data))
        \<and> skip_questions data 12 k = Some offset
        \<and> offset_after data offset j = Some at
        \<and> at < length data \<and> data ! at \<noteq> 0 \<and> (data ! at) AND 0xC0 \<noteq> 0xC0
        \<and> length data < at + unat (data ! at) + 1
        \<longrightarrow> ParseDNSMessage data = Some (Inl LabelOverrun))
   \<and> (parseDomainName data offset = Some (Inr (name, n)) \<and> length data < n + 4
        \<longrightarrow> parseQuestions data offset = Some (Inl TruncatedQuestion))
   \<and> (offset_after data offset j = Some at
        \<and> at < length data \<and> data ! at \<noteq> 0 \<and> (data ! at) AND 0xC0 \<noteq> 0xC0
        \<and> length data < at + unat (data ! at) + 1
        \<longrightarrow> parseDomainName_loop data offset labels = Some (Inl LabelOverrun))"
proof (intro conjI impI)
  assume "length data < 12"
  then show "ParseDNSMessage data = Some (Inl TooShort)"
    by (simp add: ParseDNSMessage_def MIN_MESSAGE_SIZE_def)
next
  assume a: "12 \<le> length data \<and> k < unat (QDCount (parse_header data))
        \<and> skip_questions data 12 k = Some offset
        \<and> parseDomainName data offset = Some (Inr (name, n)) \<and> length data < n + 4"
  then have "parseQuestions data offset = Some (Inl TruncatedQuestion)"
    by (simp add: parseQuestions_truncated)
  with a show "ParseDNSMessage data = Some (Inl TruncatedQuestion)"
    by (blast intro: ParseDNSMessage_question_error)
next
  assume a: "12 \<le> length data \<and> k < unat (QDCount (parse_header data))
        \<and> skip_questions data 12 k = Some offset
        \<and> offset_after data offset j = Some at
        \<and> at < length data \<and> data ! at \<noteq> 0 \<and> (data ! at) AND 0xC0 \<noteq> 0xC0
        \<and> length data < at + unat (data ! at) + 1"
  then have "\<forall>ls. parseDomainName_loop data at ls = Some (Inl LabelOverrun)"
    by (simp add: parseDomainName_loop_overrun)
  with a have "parseDomainName data offset = Some (Inl LabelOverrun)"
    unfolding parseDomainName_def by (blast intro: parseDomainName_loop_error_after)
  then have "parseQuestions data offset = Some (Inl LabelOverrun)"
    by (rule parseQuestions_name_error)
  with a show "ParseDNSMessage data = Some (Inl LabelOverrun)"
    by (blast intro: ParseDNSMessage_question_error)
next
  assume "parseDomainName data offset = Some (Inr (name, n)) \<and> length data < n + 4"
  then show "parseQuestions data offset = Some (Inl TruncatedQuestion)"
    by (simp add: parseQuestions_truncated)
next
  assume a: "offset_after data offset j = Some at
        \<and> at < length data \<and> data ! at \<noteq> 0 \<and> (data ! at) AND 0xC0 \<noteq> 0xC0
        \<and> length data < at + unat (data ! at) + 1"
  then have "\<forall>ls. parseDomainName_loop data at ls = Some (Inl LabelOverrun)"
    by (simp add: parseDomainName_loop_overrun)
  with a show "parseDomainName_loop data offset labels = Some (Inl LabelOverrun)"
    by (blast intro: parseDomainName_loop_error_after)
qed

text \<open>
  Three bytes. A message of two questions cut two bytes behind the name of the second. A
  message of two questions whose second name has, behind the label \<open>a\<close>, a label of five
  bytes of which two are there.
\<close>

theorem truncation_errors_witness:
  "ParseDNSMessage [0x12, 0x34, 0x01] = Some (Inl TooShort)
   \<and> skip_questions
       [0x12, 0x34, 0x01, 0, 0, 2, 0, 0, 0, 0, 0, 0, 3, 119, 119, 119, 0, 0, 1, 0, 1,
        3, 119, 119, 119, 0, 0, 1] 12 1 = Some 21
   \<and> parseDomainName
       [0x12, 0x34, 0x01, 0, 0, 2, 0, 0, 0, 0, 0, 0, 3, 119, 119, 119, 0, 0, 1, 0, 1,
        3, 119, 119, 119, 0, 0, 1] 21 = Some (Inr (''www'', 26))
   \<and> ParseDNSMessage
       [0x12, 0x34, 0x01, 0, 0, 2, 0, 0, 0, 0, 0, 0, 3, 119, 119, 119, 0, 0, 1, 0, 1,
        3, 119, 119, 119, 0, 0, 1] = Some (Inl TruncatedQuestion)
   \<and> offset_after
       [0x12, 0x34, 0x01, 0, 0, 2, 0, 0, 0, 0, 0, 0, 3, 119, 119, 119, 0, 0, 1, 0, 1,
        1, 97, 5, 98, 99] 21 1 = Some 23
   \<and> ParseDNSMessage
       [0x12, 0x34, 0x01, 0, 0, 2, 0, 0, 0, 0, 0, 0, 3, 119, 119, 119, 0, 0, 1, 0, 1,
        1, 97, 5, 98, 99] = Some (Inl LabelOverrun)"
proof -
  let ?t = "[0x12, 0x34, 0x01, 0, 0, 2, 0, 0, 0, 0, 0, 0, 3, 119, 119, 119, 0, 0, 1, 0, 1,
        3, 119, 119, 119, 0, 0, 1] :: byte list"
  let ?o = "[0x12, 0x34, 0x01, 0, 0, 2, 0, 0, 0, 0, 0, 0, 3, 119, 119, 119, 0, 0, 1, 0, 1,
        1, 97, 5, 98, 99] :: byte list"
  have st: "skip_questions ?t 12 1 = Some 21"
    by code_simp
  have pt: "parseDomainName ?t 21 = Some (Inr (''www'', 26))"
    by code_simp
  have qt: "1 < unat (QDCount (parse_header ?t))"
    by (simp add: parse_header_def be16_def)
  have so: "skip_questions ?o 12 1 = Some 21"
    by code_simp
  have oo: "offset_after ?o 21 1 = Some 23"
    by code_simp
  have qo: "1 < unat (QDCount (parse_header ?o))"
    by (simp add: parse_header_def be16_def)
  have a: "ParseDNSMessage [0x12, 0x34, 0x01] = Some (Inl TooShort)"
    using truncation_errors[of "[0x12, 0x34, 0x01]"] by simp
  have b: "ParseDNSMessage ?t = Some (Inl TruncatedQuestion)"
    using truncation_errors[of ?t 1 21 "''www''" 26] st pt qt by simp
  have c: "ParseDNSMessage ?o = Some (Inl LabelOverrun)"
    using truncation_errors[of ?o 1 21 "''x''" 0 1 23] so oo qo by simp
  show ?thesis
    using a b c st pt oo by simp
qed

section \<open>The response builder\<close>

text \<open>
  In this section \<open>ul\<close> is the Unicode case mapping of the library, the parameter of
  \<open>ToLower\<close>: what is proved holds for every such mapping.
\<close>

lemma answer_questions_inv:
  "answer_questions ul rs response qs = Inr response' \<Longrightarrow>
   \<exists>new. Answers response' = Answers response @ new \<and> length new \<le> length qs
     \<and> Header response' = (Header response)\<lparr>ANCount := ANCount (Header response) + of_nat (length new)\<rparr>
     \<and> Questions response' = Questions response"
proof (induction qs arbitrary: response)
  case Nil
  then show ?case by auto
next
  case (Cons q qs)
  show ?case
  proof (cases "QType q = TYPE_A \<and> QClass q = CLASS_IN")
    case False
    with Cons.prems have "answer_questions ul rs response qs = Inr response'" by auto
    from Cons.IH[OF this] show ?thesis by auto
  next
    case True
    show ?thesis
    proof (cases "LookupRecord rs (ToLower ul (QName q)) TYPE_A")
      case None
      with True Cons.prems have "answer_questions ul rs response qs = Inr response'" by auto
      from Cons.IH[OF this] show ?thesis by auto
    next
      case (Some ipData)
      with True Cons.prems have r: "answer_questions ul rs (add_answer response q ipData) qs = Inr response'"
        by (auto split: if_splits)
      from Cons.IH[OF r] obtain new where n:
        "Answers response' = Answers (add_answer response q ipData) @ new" "length new \<le> length qs"
        "Header response' = (Header (add_answer response q ipData))\<lparr>ANCount := ANCount (Header (add_answer response q ipData)) + of_nat (length new)\<rparr>"
        "Questions response' = Questions (add_answer response q ipData)"
        by blast
      show ?thesis
        apply (rule exI[of _ "\<lparr>Name = QName q, Type = TYPE_A, Class = CLASS_IN, TTL = DEFAULT_TTL, Data = ipData\<rparr> # new"])
        using n by (simp add: add_answer_def add.assoc add.commute)
    qed
  qed
qed

lemma answer_questions_total:
  "addresses_complete rs \<Longrightarrow> \<exists>r. answer_questions ul rs response qs = Inr r"
proof (induction qs arbitrary: response)
  case Nil
  show ?case by simp
next
  case (Cons q qs)
  show ?case
  proof (cases "LookupRecord rs (ToLower ul (QName q)) TYPE_A")
    case None
    then show ?thesis using Cons.IH[OF Cons.prems] by simp
  next
    case (Some ipData)
    have "4 \<le> length ipData"
      using Cons.prems Some unfolding addresses_complete_def by blast
    then show ?thesis using Some Cons.IH[OF Cons.prems] by simp
  qed
qed

lemma parse_question_loop_length:
  "parse_question_loop data offset n acc = Some (Inr qs) \<Longrightarrow> length qs = length acc + n"
proof (induction n arbitrary: offset acc)
  case 0
  then show ?case by simp
next
  case (Suc n)
  from Suc.prems obtain y where y: "parseQuestions data offset = Some y"
    by (cases "parseQuestions data offset") auto
  show ?case
  proof (cases y)
    case (Inl e)
    with y Suc.prems show ?thesis by simp
  next
    case (Inr res)
    with y Suc.prems
    have "parse_question_loop data (snd res) n (acc @ [fst res]) = Some (Inr qs)"
      by simp
    from Suc.IH[OF this] show ?thesis by simp
  qed
qed

lemma parsed_question_count:
  "ParseDNSMessage data = Some (Inr query) \<Longrightarrow> length (Questions query) = unat (QDCount (Header query))"
proof -
  assume a: "ParseDNSMessage data = Some (Inr query)"
  let ?n = "unat (QDCount (parse_header data))"
  from a have l: "\<not> length data < MIN_MESSAGE_SIZE"
    by (auto simp: ParseDNSMessage_def split: if_splits)
  with a obtain y where y: "parse_question_loop data 12 ?n [] = Some y"
    by (cases "parse_question_loop data 12 ?n []") (auto simp: ParseDNSMessage_def)
  show ?thesis
  proof (cases y)
    case (Inl e)
    with y a l show ?thesis by (simp add: ParseDNSMessage_def)
  next
    case (Inr qs)
    with y a l have q: "query = \<lparr>Header = parse_header data, Questions = qs, Answers = []\<rparr>"
      by (simp add: ParseDNSMessage_def)
    from y Inr have "length qs = ?n"
      using parse_question_loop_length[of data 12 ?n "[]" qs] by simp
    with q show ?thesis by simp
  qed
qed

lemma response_counts:
  assumes len: "length (Questions query) < 65536"
    and r: "createDNSResponse ul rs query = Inr response"
  shows "unat (ANCount (Header response)) = length (Answers response)"
    and "Flags (Header response) = (if Answers response = [] then 0x8183 else 0x8180)"
    and "Questions response = Questions query"
    and "ID (Header response) = ID (Header query)"
proof -
  from r obtain r0 where r0: "answer_questions ul rs (base_response query) (Questions query) = Inr r0"
    and resp: "response = set_nxdomain r0"
    by (cases "answer_questions ul rs (base_response query) (Questions query)")
       (simp_all add: createDNSResponse_def)
  from answer_questions_inv[OF r0] obtain new where n0:
    "Answers r0 = Answers (base_response query) @ new"
    "length new \<le> length (Questions query)"
    "Header r0 = (Header (base_response query))
       \<lparr>ANCount := ANCount (Header (base_response query)) + of_nat (length new)\<rparr>"
    "Questions r0 = Questions (base_response query)"
    by blast
  have a: "Answers r0 = new"
    using n0(1) by (simp add: base_response_def)
  have q: "Questions r0 = Questions query"
    using n0(4) by (simp add: base_response_def)
  have h: "ANCount (Header r0) = of_nat (length new)" "Flags (Header r0) = 0x8180"
    "ID (Header r0) = ID (Header query)"
    by (simp_all add: n0(3) base_response_def)
  have u: "unat (ANCount (Header r0)) = length new"
    using n0(2) len by (simp add: h(1) unat_of_nat)
  have z: "ANCount (Header r0) = 0 \<longleftrightarrow> new = []"
    using u by (simp add: unat_eq_0[symmetric])
  show "unat (ANCount (Header response)) = length (Answers response)"
    by (simp add: resp set_nxdomain_def u a z)
  show "Flags (Header response) = (if Answers response = [] then 0x8183 else 0x8180)"
    by (simp add: resp set_nxdomain_def z a h(2))
  show "Questions response = Questions query"
    by (simp add: resp set_nxdomain_def q)
  show "ID (Header response) = ID (Header query)"
    by (simp add: resp set_nxdomain_def h(3))
qed

lemma lookup_new: "LookupRecord NewRecordStore domain TYPE_A = Some data \<Longrightarrow> length data = 4"
  by (auto simp add: NewRecordStore_def LookupRecord_def TYPE_A_def split: if_splits)

lemma NewRecordStore_complete: "addresses_complete NewRecordStore"
  unfolding addresses_complete_def using lookup_new by fastforce

text \<open>
  C3. For every query that \<open>ParseDNSMessage\<close> returns and every record table, a response
  that the builder returns has an answer count equal to the number of its answer records;
  its flags are \<open>0x8183\<close>, with \<open>0x0003\<close> in the low two bits, when it has no answer,
  and \<open>0x8180\<close>, with those two bits zero, when it has one or more. The builder returns a
  response whenever every stored address has its four bytes, as the initial table has.
\<close>

theorem nxdomain_policy:
  assumes "ParseDNSMessage data = Some (Inr query)"
  shows "(\<forall>response. createDNSResponse ul rs query = Inr response \<longrightarrow>
            unat (ANCount (Header response)) = length (Answers response)
            \<and> Flags (Header response) AND 0x0003 = (if Answers response = [] then 0x0003 else 0)
            \<and> Flags (Header response) = (if Answers response = [] then 0x8183 else 0x8180))
         \<and> (addresses_complete rs \<longrightarrow> (\<exists>response. createDNSResponse ul rs query = Inr response))"
proof (intro conjI allI impI)
  have len: "length (Questions query) < 65536"
    using parsed_question_count[OF assms] unsigned_less[of "QDCount (Header query)", where ?'a = nat]
    by simp
  fix response
  assume r: "createDNSResponse ul rs query = Inr response"
  show "unat (ANCount (Header response)) = length (Answers response)"
    by (rule response_counts(1)[OF len r])
  show f: "Flags (Header response) = (if Answers response = [] then 0x8183 else 0x8180)"
    by (rule response_counts(2)[OF len r])
  show "Flags (Header response) AND 0x0003 = (if Answers response = [] then 0x0003 else 0)"
    unfolding f by simp
next
  assume "addresses_complete rs"
  from answer_questions_total[OF this, where response = "base_response query"
      and qs = "Questions query" and ul = ul]
  show "\<exists>response. createDNSResponse ul rs query = Inr response"
    by (auto simp: createDNSResponse_def)
qed

theorem nxdomain_policy_witness:
  "ParseDNSMessage
     [0x12, 0x34, 0x01, 0x00, 0x00, 0x01, 0x00, 0x00, 0x00, 0x00, 0x00, 0x00,
      2, 110, 120, 4, 116, 101, 115, 116, 0, 0x00, 0x01, 0x00, 0x01]
   = Some (Inr \<lparr>Header = \<lparr>ID = 0x1234, Flags = 0x0100, QDCount = 1, ANCount = 0,
                             NSCount = 0, ARCount = 0\<rparr>,
                  Questions = [\<lparr>QName = ''nx.test'', QType = 1, QClass = 1\<rparr>],
                  Answers = []\<rparr>)
   \<and> createDNSResponse (\<lambda>s. s) NewRecordStore
       \<lparr>Header = \<lparr>ID = 0x1234, Flags = 0x0100, QDCount = 1, ANCount = 0,
                   NSCount = 0, ARCount = 0\<rparr>,
        Questions = [\<lparr>QName = ''nx.test'', QType = 1, QClass = 1\<rparr>],
        Answers = []\<rparr>
     = Inr \<lparr>Header = \<lparr>ID = 0x1234, Flags = 0x8183, QDCount = 1, ANCount = 0,
                       NSCount = 0, ARCount = 0\<rparr>,
            Questions = [\<lparr>QName = ''nx.test'', QType = 1, QClass = 1\<rparr>],
            Answers = []\<rparr>
   \<and> (0x8183 :: uint16) AND 0x0003 = 0x0003"
proof -
  let ?d = "[0x12, 0x34, 0x01, 0x00, 0x00, 0x01, 0x00, 0x00, 0x00, 0x00, 0x00, 0x00,
      2, 110, 120, 4, 116, 101, 115, 116, 0, 0x00, 0x01, 0x00, 0x01] :: byte list"
  let ?q = "\<lparr>Header = \<lparr>ID = 0x1234, Flags = 0x0100, QDCount = 1, ANCount = 0,
                   NSCount = 0, ARCount = 0\<rparr>,
        Questions = [\<lparr>QName = ''nx.test'', QType = 1, QClass = 1\<rparr>],
        Answers = []\<rparr>"
  have p: "ParseDNSMessage ?d = Some (Inr ?q)"
    by code_simp
  have c: "createDNSResponse (\<lambda>s. s) NewRecordStore ?q
     = Inr \<lparr>Header = \<lparr>ID = 0x1234, Flags = 0x8183, QDCount = 1, ANCount = 0,
                       NSCount = 0, ARCount = 0\<rparr>,
            Questions = [\<lparr>QName = ''nx.test'', QType = 1, QClass = 1\<rparr>],
            Answers = []\<rparr>"
    by code_simp
  show ?thesis
    using p c nxdomain_policy[OF p, where rs = NewRecordStore and ul = "\<lambda>s. s"] by simp
qed

lemma ToLower_www_example_com: "ToLower ul ''www.example.com'' = ''www.example.com''"
  by code_simp

text \<open>
  C4, scenario A. On a table that holds 192.168.1.1 for www.example.com, the query with
  id \<open>0x1234\<close>, flags \<open>0x0100\<close> and the one question (www.example.com, type 1, class 1)
  gets the response with the same id, flags \<open>0x8180\<close>, one answer, the question as it
  was, and the answer (www.example.com, type 1, class 1, TTL 300, 192.168.1.1).
\<close>

theorem scenario_A:
  assumes "LookupRecord rs ''www.example.com'' TYPE_A = Some [192, 168, 1, 1]"
  shows "createDNSResponse ul rs
     \<lparr>Header = \<lparr>ID = 0x1234, Flags = 0x0100, QDCount = 1, ANCount = 0, NSCount = 0, ARCount = 0\<rparr>,
      Questions = [\<lparr>QName = ''www.example.com'', QType = 1, QClass = 1\<rparr>], Answers = []\<rparr>
   = Inr \<lparr>Header = \<lparr>ID = 0x1234, Flags = 0x8180, QDCount = 1, ANCount = 1, NSCount = 0, ARCount = 0\<rparr>,
      Questions = [\<lparr>QName = ''www.example.com'', QType = 1, QClass = 1\<rparr>],
      Answers = [\<lparr>Name = ''www.example.com'', Type = 1, Class = 1, TTL = 300, Data = [192, 168, 1, 1]\<rparr>]\<rparr>"
  using assms
  by (simp add: createDNSResponse_def base_response_def add_answer_def set_nxdomain_def ToLower_www_example_com
      TYPE_A_def CLASS_IN_def DEFAULT_TTL_def)

theorem scenario_A_witness:
  "LookupRecord NewRecordStore ''www.example.com'' TYPE_A = Some [192, 168, 1, 1]
   \<and> createDNSResponse (\<lambda>s. s) NewRecordStore
     \<lparr>Header = \<lparr>ID = 0x1234, Flags = 0x0100, QDCount = 1, ANCount = 0, NSCount = 0, ARCount = 0\<rparr>,
      Questions = [\<lparr>QName = ''www.example.com'', QType = 1, QClass = 1\<rparr>], Answers = []\<rparr>
   = Inr \<lparr>Header = \<lparr>ID = 0x1234, Flags = 0x8180, QDCount = 1, ANCount = 1, NSCount = 0, ARCount = 0\<rparr>,
      Questions = [\<lparr>QName = ''www.example.com'', QType = 1, QClass = 1\<rparr>],
      Answers = [\<lparr>Name = ''www.example.com'', Type = 1, Class = 1, TTL = 300, Data = [192, 168, 1, 1]\<rparr>]\<rparr>"
proof -
  have l: "LookupRecord NewRecordStore ''www.example.com'' TYPE_A = Some [192, 168, 1, 1]"
    by code_simp
  show ?thesis
    using l scenario_A[OF l] by simp
qed

lemma answer_questions_agree:
  assumes "\<forall>q \<in> set qs. supported q \<longrightarrow>
             LookupRecord rs (ToLower ul (QName q)) TYPE_A = LookupRecord rs' (ToLower ul (QName q)) TYPE_A"
  shows "answer_questions ul rs response qs = answer_questions ul rs' response qs"
  using assms by (induction qs arbitrary: response) (auto simp: supported_def split: option.splits)

lemma answer_questions_unsupported:
  assumes "\<forall>q \<in> set qs. \<not> supported q"
  shows "answer_questions ul rs response qs = Inr response"
  using assms by (induction qs arbitrary: response) (auto simp: supported_def)

lemma answer_questions_filter:
  "answer_questions ul rs response (filter supported qs) = answer_questions ul rs response qs"
  by (induction qs arbitrary: response) (auto simp: supported_def split: option.splits)

lemma answer_questions_Questions:
  "answer_questions ul rs (response\<lparr>Questions := x\<rparr>) qs
   = map_sum id (\<lambda>r. r\<lparr>Questions := x\<rparr>) (answer_questions ul rs response qs)"
proof (induction qs arbitrary: response)
  case Nil
  show ?case by simp
next
  case (Cons q qs)
  have a: "\<And>d. add_answer (response\<lparr>Questions := x\<rparr>) q d
              = (add_answer response q d)\<lparr>Questions := x\<rparr>"
    by (simp add: add_answer_def)
  show ?case
    by (simp add: Cons.IH a split: option.splits)
qed

lemma createDNSResponse_filter:
  "createDNSResponse ul rs (query\<lparr>Questions := filter supported (Questions query)\<rparr>)
   = map_sum id (\<lambda>r. r\<lparr>Questions := filter supported (Questions query)\<rparr>)
       (createDNSResponse ul rs query)"
proof -
  let ?f = "filter supported (Questions query)"
  have b: "base_response (query\<lparr>Questions := ?f\<rparr>) = (base_response query)\<lparr>Questions := ?f\<rparr>"
    by (simp add: base_response_def)
  have n: "\<And>r. set_nxdomain (r\<lparr>Questions := ?f\<rparr>) = (set_nxdomain r)\<lparr>Questions := ?f\<rparr>"
    by (simp add: set_nxdomain_def)
  show ?thesis
    by (cases "answer_questions ul rs (base_response query) (Questions query)")
       (simp_all add: createDNSResponse_def b answer_questions_Questions
          answer_questions_filter n)
qed

text \<open>
  C5. The response depends on the record table only through the lookups of the questions of
  type 1 and class 1: two tables that agree on those give the same response, so a question
  of another type or class reads nothing from the table and adds no answer. A query whose
  questions are all of another type or class gets answer count 0, no answer and the flags
  \<open>0x8183\<close>, whatever the table holds. In every query, the questions of another type or
  class add nothing: without them the response is the same but for the questions it echoes.
\<close>

theorem unsupported_never_resolves:
  "((\<forall>q \<in> set (Questions query). supported q \<longrightarrow>
        LookupRecord rs (ToLower ul (QName q)) TYPE_A = LookupRecord rs' (ToLower ul (QName q)) TYPE_A)
      \<longrightarrow> createDNSResponse ul rs query = createDNSResponse ul rs' query)
   \<and> ((\<forall>q \<in> set (Questions query). QType q \<noteq> TYPE_A \<or> QClass q \<noteq> CLASS_IN)
      \<longrightarrow> createDNSResponse ul rs query
          = Inr \<lparr>Header = \<lparr>ID = ID (Header query), Flags = 0x8183,
                             QDCount = QDCount (Header query), ANCount = 0, NSCount = 0,
                             ARCount = 0\<rparr>,
                  Questions = Questions query, Answers = []\<rparr>)
   \<and> createDNSResponse ul rs (query\<lparr>Questions := filter supported (Questions query)\<rparr>)
       = map_sum id (\<lambda>r. r\<lparr>Questions := filter supported (Questions query)\<rparr>)
           (createDNSResponse ul rs query)"
proof (intro conjI impI)
  assume "\<forall>q \<in> set (Questions query). supported q \<longrightarrow>
        LookupRecord rs (ToLower ul (QName q)) TYPE_A = LookupRecord rs' (ToLower ul (QName q)) TYPE_A"
  from answer_questions_agree[OF this]
  show "createDNSResponse ul rs query = createDNSResponse ul rs' query"
    by (simp add: createDNSResponse_def)
next
  assume "\<forall>q \<in> set (Questions query). QType q \<noteq> TYPE_A \<or> QClass q \<noteq> CLASS_IN"
  then have "\<forall>q \<in> set (Questions query). \<not> supported q"
    by (simp add: supported_def)
  from answer_questions_unsupported[OF this]
  show "createDNSResponse ul rs query
          = Inr \<lparr>Header = \<lparr>ID = ID (Header query), Flags = 0x8183,
                             QDCount = QDCount (Header query), ANCount = 0, NSCount = 0,
                             ARCount = 0\<rparr>,
                  Questions = Questions query, Answers = []\<rparr>"
    by (simp add: createDNSResponse_def base_response_def set_nxdomain_def)
next
  show "createDNSResponse ul rs (query\<lparr>Questions := filter supported (Questions query)\<rparr>)
       = map_sum id (\<lambda>r. r\<lparr>Questions := filter supported (Questions query)\<rparr>)
           (createDNSResponse ul rs query)"
    by (rule createDNSResponse_filter)
qed

theorem unsupported_never_resolves_witness:
  "LookupRecord NewRecordStore ''www.example.com'' TYPE_A = Some [192, 168, 1, 1]
   \<and> createDNSResponse (\<lambda>s. s) NewRecordStore
       \<lparr>Header = \<lparr>ID = 0x1234, Flags = 0x0100, QDCount = 1, ANCount = 0, NSCount = 0, ARCount = 0\<rparr>,
        Questions = [\<lparr>QName = ''www.example.com'', QType = 28, QClass = 1\<rparr>], Answers = []\<rparr>
     = Inr \<lparr>Header = \<lparr>ID = 0x1234, Flags = 0x8183, QDCount = 1, ANCount = 0, NSCount = 0, ARCount = 0\<rparr>,
        Questions = [\<lparr>QName = ''www.example.com'', QType = 28, QClass = 1\<rparr>], Answers = []\<rparr>
   \<and> createDNSResponse (\<lambda>s. s) Map.empty
       \<lparr>Header = \<lparr>ID = 0x1234, Flags = 0x0100, QDCount = 1, ANCount = 0, NSCount = 0, ARCount = 0\<rparr>,
        Questions = [\<lparr>QName = ''www.example.com'', QType = 28, QClass = 1\<rparr>], Answers = []\<rparr>
     = createDNSResponse (\<lambda>s. s) NewRecordStore
       \<lparr>Header = \<lparr>ID = 0x1234, Flags = 0x0100, QDCount = 1, ANCount = 0, NSCount = 0, ARCount = 0\<rparr>,
        Questions = [\<lparr>QName = ''www.example.com'', QType = 28, QClass = 1\<rparr>], Answers = []\<rparr>"
proof -
  let ?q = "\<lparr>Header = \<lparr>ID = 0x1234, Flags = 0x0100, QDCount = 1, ANCount = 0, NSCount = 0, ARCount = 0\<rparr>,
        Questions = [\<lparr>QName = ''www.example.com'', QType = 28, QClass = 1\<rparr>], Answers = []\<rparr>"
  have l: "LookupRecord NewRecordStore ''www.example.com'' TYPE_A = Some [192, 168, 1, 1]"
    by code_simp
  have u: "\<forall>q \<in> set (Questions ?q). QType q \<noteq> TYPE_A \<or> QClass q \<noteq> CLASS_IN"
    by (simp add: TYPE_A_def)
  have s: "\<forall>q \<in> set (Questions ?q). supported q \<longrightarrow>
        LookupRecord Map.empty (ToLower (\<lambda>s. s) (QName q)) TYPE_A
        = LookupRecord NewRecordStore (ToLower (\<lambda>s. s) (QName q)) TYPE_A"
    by (simp add: supported_def TYPE_A_def)
  show ?thesis
    using l u s
      unsupported_never_resolves
        [where query = ?q and rs = Map.empty and rs' = NewRecordStore and ul = "\<lambda>s. s"]
      unsupported_never_resolves
        [where query = ?q and rs = NewRecordStore and rs' = NewRecordStore and ul = "\<lambda>s. s"]
    by simp
qed

section \<open>Case of stored names\<close>

lemma AddRecord_other: "k \<noteq> domain \<Longrightarrow> AddRecord rs domain t data k = rs k"
  by (simp add: AddRecord_def split: option.splits)

lemma LookupRecord_AddRecord_other:
  "k \<noteq> domain \<Longrightarrow> LookupRecord (AddRecord rs domain t data) k t' = LookupRecord rs k t'"
  by (simp add: LookupRecord_def AddRecord_other)


text \<open>A key that is the lower-case form of no name is read by no lookup of the builder.\<close>

lemma key_outside_ToLower_unreachable:
  assumes "\<forall>name. ToLower ul name \<noteq> domain"
  shows "LookupRecord (AddRecord rs domain recordType data) (ToLower ul name) t
           = LookupRecord rs (ToLower ul name) t"
    and "createDNSResponse ul (AddRecord rs domain recordType data) query
           = createDNSResponse ul rs query"
proof -
  show l: "\<And>name t. LookupRecord (AddRecord rs domain recordType data) (ToLower ul name) t
           = LookupRecord rs (ToLower ul name) t"
    using assms by (simp add: LookupRecord_AddRecord_other)
  have "answer_questions ul (AddRecord rs domain recordType data) (base_response query)
          (Questions query)
        = answer_questions ul rs (base_response query) (Questions query)"
    by (rule answer_questions_agree) (simp add: l)
  then show "createDNSResponse ul (AddRecord rs domain recordType data) query
             = createDNSResponse ul rs query"
    by (simp add: createDNSResponse_def)
qed

lemma lower_char_not_upper: "\<not> is_upper (lower_char c)"
proof (cases "is_upper c")
  case True
  then have "(of_char c + 32 :: nat) mod 256 = of_char c + 32"
    by (simp add: is_upper_def)
  with True show ?thesis
    by (simp add: lower_char_def is_upper_def)
next
  case False
  then show ?thesis by (simp add: lower_char_def)
qed

text \<open>
  The ASCII capitals: when the Unicode mapping of the library gives no byte \<open>A\<close> to
  \<open>Z\<close>, no result of \<open>ToLower\<close> has one, and a key with one is read by no lookup.
\<close>

lemma ToLower_no_ascii_capital:
  assumes "\<forall>s. \<not> list_ex is_upper (ul s)"
  shows "\<not> list_ex is_upper (ToLower ul name)"
  using assms by (simp add: ToLower_def list_ex_iff lower_char_not_upper)

lemma ascii_capital_key_unreachable:
  assumes "\<forall>s. \<not> list_ex is_upper (ul s)" and "list_ex is_upper domain"
  shows "createDNSResponse ul (AddRecord rs domain recordType data) query
           = createDNSResponse ul rs query"
proof (rule key_outside_ToLower_unreachable(2))
  show "\<forall>name. ToLower ul name \<noteq> domain"
    using ToLower_no_ascii_capital[OF assms(1)] assms(2) by metis
qed



section \<open>Empty labels\<close>

lemma enc_label_Nil [simp]: "enc_label [] = [0]"
  by (simp add: enc_label_def bytes_of_string_def)

lemma empty_label_stops_decoder:
  assumes ne: "name \<noteq> []" and e: "[] \<in> set (split_dot name)"
  shows "parseDomainName (EncodeDomainName name @ rest) 0
         = Some (Inr (finish_name (takeWhile (\<lambda>l. l \<noteq> []) (filter (\<lambda>l. length l \<le> 63) (split_dot name))),
              length (concat (map enc_label (takeWhile (\<lambda>l. l \<noteq> []) (filter (\<lambda>l. length l \<le> 63) (split_dot name))))) + 1))"
    and "length (concat (map enc_label (takeWhile (\<lambda>l. l \<noteq> []) (filter (\<lambda>l. length l \<le> 63) (split_dot name))))) + 1
         < length (EncodeDomainName name)"
proof -
  let ?kept = "filter (\<lambda>l. length l \<le> 63) (split_dot name)"
  let ?pre = "takeWhile (\<lambda>l. l \<noteq> []) ?kept"
  let ?post = "dropWhile (\<lambda>l. l \<noteq> []) ?kept"
  have mem: "[] \<in> set ?kept" using e by simp
  then have "?post \<noteq> []" by (simp add: dropWhile_eq_Nil_conv) 
  moreover have "?post \<noteq> [] \<Longrightarrow> hd ?post = []"
    using hd_dropWhile[of "\<lambda>l. l \<noteq> []" ?kept] by simp
  ultimately obtain post where post: "?post = [] # post"
    by (cases ?post) auto
  have k: "?kept = ?pre @ [] # post"
    using takeWhile_dropWhile_id[of "\<lambda>l. l \<noteq> []" ?kept] post by simp
  have w: "\<forall>l \<in> set ?pre. 0 < length l \<and> length l \<le> 63"
  proof
    fix l assume l: "l \<in> set ?pre"
    from set_takeWhileD[OF l] show "0 < length l \<and> length l \<le> 63"
      by simp
  qed
  have enc: "EncodeDomainName name = concat (map enc_label ?pre) @ 0 # (concat (map enc_label post) @ [0])"
  proof -
    have "EncodeDomainName name = concat (map enc_label ?kept) @ [0]"
      using ne by (simp add: EncodeDomainName_def encode_labels_eq)
    also have "\<dots> = concat (map enc_label (?pre @ [] # post)) @ [0]"
      using k by simp
    finally show ?thesis by simp
  qed
  show "parseDomainName (EncodeDomainName name @ rest) 0
         = Some (Inr (finish_name ?pre, length (concat (map enc_label ?pre)) + 1))"
    using parse_literal_labels[OF w, of "[]" "(concat (map enc_label post) @ [0]) @ rest" "[]"]
    by (simp add: parseDomainName_def enc)
  show "length (concat (map enc_label ?pre)) + 1 < length (EncodeDomainName name)"
    by (simp add: enc)
qed

text \<open>
  C10. The wire byte \<open>0x00\<close> decodes to the root name \<open>"."\<close>, and encoding \<open>"."\<close>
  gives the three bytes \<open>[0, 0, 0]\<close>, not the byte it came from. For every name with an
  empty label, the decoder stops in the encoding at the zero byte of the first empty label,
  before the end of the encoding, and returns only the labels before it.
\<close>

theorem root_name_asymmetry:
  "parseDomainName [0] 0 = Some (Inr (''.'', 1))
   \<and> EncodeDomainName ''.'' = [0, 0, 0]
   \<and> EncodeDomainName ''.'' \<noteq> [0]
   \<and> (name \<noteq> [] \<and> [] \<in> set (split_dot name) \<longrightarrow>
        parseDomainName (EncodeDomainName name @ rest) 0
          = Some (Inr (finish_name (labels_before_empty name),
                       length (concat (map enc_label (labels_before_empty name))) + 1))
        \<and> length (concat (map enc_label (labels_before_empty name))) + 1
            < length (EncodeDomainName name))"
proof -
  have a: "parseDomainName [0] 0 = Some (Inr (''.'', 1))"
    by code_simp
  have b: "EncodeDomainName ''.'' = [0, 0, 0]"
    by code_simp
  show ?thesis
    unfolding labels_before_empty_def
    using a b empty_label_stops_decoder(1)[of name rest] empty_label_stops_decoder(2)[of name]
    by simp
qed

theorem root_name_asymmetry_witness:
  "EncodeDomainName ''a..b'' = [1, 97, 0, 1, 98, 0]
   \<and> parseDomainName (EncodeDomainName ''a..b'') 0 = Some (Inr (''a'', 3))"
proof -
  have e: "EncodeDomainName ''a..b'' = [1, 97, 0, 1, 98, 0]"
    by code_simp
  have s: "''a..b'' \<noteq> [] \<and> [] \<in> set (split_dot ''a..b'')"
    by simp
  have l: "labels_before_empty ''a..b'' = [''a'']"
    by (simp add: labels_before_empty_def)
  show ?thesis
    using root_name_asymmetry[of "''a..b''" "[]"] s e l
    by (simp add: finish_name_def enc_label_def)
qed

end
